theory Spec2Isabelle
  imports Main "HOL-Library.Word"
begin

section \<open>The EventHub namespace cache (eventhubcache/cache.go)\<close>

subsection \<open>Data model\<close>

text \<open>
  The cache keeps two Go maps of type \<^verbatim>\<open>map[string]*Namespace\<close>. Both hold pointers
  to the same \<^verbatim>\<open>Namespace\<close> objects, and \<^verbatim>\<open>AddEventHub\<close> / \<^verbatim>\<open>RemoveEventHub\<close> change the
  \<^verbatim>\<open>Count\<close> field through such a pointer, so the objects live in an explicit store.
  A pointer is an \<open>addr option\<close>, with \<open>None\<close> for \<^verbatim>\<open>nil\<close>; a Go map is a partial
  function whose values may themselves be \<^verbatim>\<open>nil\<close> pointers.

  \<^verbatim>\<open>Count\<close> is a Go \<^verbatim>\<open>int\<close>. It is only ever incremented when it is below a constant
  of type \<^verbatim>\<open>int\<close> or once per element of a slice, and only decremented when it is
  positive, so no operation of this file can wrap around; it is modelled by \<open>int\<close>.
\<close>

type_synonym addr = nat

type_synonym ptr = "addr option"

text \<open>
  A Go \<^verbatim>\<open>error\<close> value that is not \<^verbatim>\<open>nil\<close>. \<open>NotFound\<close> stands for the errors that
  \<^verbatim>\<open>apierrs.IsNotFound\<close> recognises; \<open>ErrorMsg\<close> is the method \<^verbatim>\<open>Error()\<close>.
\<close>

datatype error = Err string | NotFound string

fun ErrorMsg :: "error \<Rightarrow> string" where
  "ErrorMsg (Err msg) = msg"
| "ErrorMsg (NotFound msg) = msg"

fun IsNotFound :: "error \<Rightarrow> bool" where
  "IsNotFound (NotFound _) = True"
| "IsNotFound (Err _) = False"

text \<open>
  Modelled from the spec: the \<^verbatim>\<open>Namespace\<close> struct is declared in a file that is not
  part of the sources at hand. The cache reads and writes its fields \<^verbatim>\<open>Name\<close> and
  \<^verbatim>\<open>Count\<close> and calls \<^verbatim>\<open>HubManager.List\<close>; the hub manager is represented by the
  outcome of that call (an error, or the names of the listed EventHubs).
\<close>

record Namespace =
  Name :: string
  Count :: int
  HubManager :: "error + string list"

record Cache =
  heap :: "addr \<Rightarrow> Namespace"
  nextAddr :: addr
  namespaceMap :: "string \<rightharpoonup> ptr"
  eventhubMap :: "string \<rightharpoonup> ptr"

text \<open>Indexing a Go map of pointers: a missing key yields the zero value \<^verbatim>\<open>nil\<close>.\<close>

definition index_map :: "(string \<rightharpoonup> ptr) \<Rightarrow> string \<Rightarrow> ptr" where
  "index_map m k = (case m k of None \<Rightarrow> None | Some p \<Rightarrow> p)"

subsection \<open>AddEventHub, RemoveEventHub, GetNamespace\<close>

text \<open>
  The constant \<^verbatim>\<open>constants.MaxEventHubsPerNamespace\<close> is declared outside the sources
  at hand; it is the parameter \<open>maxCap\<close> of every function that reads it.
\<close>

definition AddEventHub :: "int \<Rightarrow> string \<Rightarrow> ptr \<Rightarrow> Cache \<Rightarrow> Cache" where
  "AddEventHub maxCap eventhub namespace c =
     (case namespace of
        None \<Rightarrow> c
      | Some a \<Rightarrow>
          if Count (heap c a) < maxCap
          then c\<lparr> heap := (heap c)(a := (heap c a)\<lparr> Count := Count (heap c a) + 1 \<rparr>),
                  eventhubMap := (eventhubMap c)(eventhub \<mapsto> Some a) \<rparr>
          else c)"

definition GetNamespace :: "Cache \<Rightarrow> string \<Rightarrow> ptr" where
  "GetNamespace c eventhub = index_map (eventhubMap c) eventhub"

definition RemoveEventHub :: "string \<Rightarrow> Cache \<Rightarrow> Cache" where
  "RemoveEventHub eventhub c =
     (let c' = (case GetNamespace c eventhub of
                  None \<Rightarrow> c
                | Some a \<Rightarrow>
                    if Count (heap c a) > 0
                    then c\<lparr> heap := (heap c)(a := (heap c a)\<lparr> Count := Count (heap c a) - 1 \<rparr>) \<rparr>
                    else c)
      in c'\<lparr> eventhubMap := (eventhubMap c')(eventhub := None) \<rparr>)"

text \<open>A sequence of calls on the cache, applied from left to right.\<close>

datatype cache_call = AddTopic string ptr | RemoveTopic string

fun apply_call :: "int \<Rightarrow> cache_call \<Rightarrow> Cache \<Rightarrow> Cache" where
  "apply_call maxCap (AddTopic eventhub namespace) c = AddEventHub maxCap eventhub namespace c"
| "apply_call maxCap (RemoveTopic eventhub) c = RemoveEventHub eventhub c"

fun apply_calls :: "int \<Rightarrow> cache_call list \<Rightarrow> Cache \<Rightarrow> Cache" where
  "apply_calls maxCap [] c = c"
| "apply_calls maxCap (x # xs) c = apply_calls maxCap xs (apply_call maxCap x c)"

subsection \<open>GetNamespaceWithMaxCapacity\<close>

text \<open>
  The body of the \<^verbatim>\<open>for ... range c.namespaceMap\<close> loop, run over the values in the
  order in which the keys are visited. \<^verbatim>\<open>continue\<close> is the recursive call on the rest,
  \<^verbatim>\<open>break\<close> returns the candidate found so far.
\<close>

fun maxCapacityLoop :: "int \<Rightarrow> (addr \<Rightarrow> Namespace) \<Rightarrow> ptr \<Rightarrow> ptr list \<Rightarrow> ptr" where
  "maxCapacityLoop maxCap h maxCapacityNamespace [] = maxCapacityNamespace"
| "maxCapacityLoop maxCap h maxCapacityNamespace (None # rest) =
     maxCapacityLoop maxCap h maxCapacityNamespace rest"
| "maxCapacityLoop maxCap h maxCapacityNamespace (Some a # rest) =
     (if maxCapacityNamespace = None \<and> Count (h a) < maxCap
      then maxCapacityLoop maxCap h (Some a) rest
      else (case maxCapacityNamespace of
              None \<Rightarrow> maxCapacityLoop maxCap h maxCapacityNamespace rest
            | Some m \<Rightarrow>
                if Count (h m) = 0 then maxCapacityNamespace
                else if Count (h a) < Count (h m)
                then maxCapacityLoop maxCap h (Some a) rest
                else maxCapacityLoop maxCap h maxCapacityNamespace rest))"

text \<open>
  Go does not fix the order in which \<^verbatim>\<open>range\<close> visits a map; it visits every key once.
  The order is a parameter of the model: any list \<open>ks\<close> with \<open>range_order m ks\<close>.
\<close>

definition range_order :: "(string \<rightharpoonup> ptr) \<Rightarrow> string list \<Rightarrow> bool" where
  "range_order m ks \<longleftrightarrow> distinct ks \<and> set ks = dom m"

definition GetNamespaceWithMaxCapacity :: "int \<Rightarrow> Cache \<Rightarrow> string list \<Rightarrow> ptr" where
  "GetNamespaceWithMaxCapacity maxCap c ks =
     maxCapacityLoop maxCap (heap c) None (map (index_map (namespaceMap c)) ks)"

subsection \<open>Update\<close>

text \<open>
  A Kafka secret, reduced to what \<^verbatim>\<open>validateKafkaSecret\<close> reads: the four entries of
  \<^verbatim>\<open>secret.Data\<close> converted to strings (a missing entry converts to the empty string).
\<close>

record KafkaSecret =
  secretName :: string
  dataBrokers :: string
  dataUsername :: string
  dataPassword :: string
  dataNamespace :: string

definition validateKafkaSecret :: "KafkaSecret option \<Rightarrow> bool" where
  "validateKafkaSecret secret =
     (case secret of
        None \<Rightarrow> False
      | Some s \<Rightarrow> length (dataBrokers s) > 0 \<and> length (dataUsername s) > 0 \<and>
                  length (dataPassword s) > 0 \<and> length (dataNamespace s) > 0)"

text \<open>
  Modelled from the spec: \<^verbatim>\<open>NewNamespaceFromKafkaSecret\<close> is defined in a file that is
  not part of the sources at hand. It constructs a fresh \<^verbatim>\<open>Namespace\<close> for the record,
  named after the record's namespace entry, with a count of zero (the count is seeded
  from the topic listing by \<^verbatim>\<open>Update\<close>). The second argument is what the new hub
  manager will answer to \<^verbatim>\<open>List\<close>. The object is allocated at the next free address.
\<close>

definition NewNamespaceFromKafkaSecret ::
    "KafkaSecret \<Rightarrow> error + string list \<Rightarrow> Cache \<Rightarrow> addr \<times> Cache" where
  "NewNamespaceFromKafkaSecret kafkaSecret listing c =
     (nextAddr c,
      c\<lparr> heap := (heap c)(nextAddr c :=
              \<lparr> Name = dataNamespace kafkaSecret, Count = 0, HubManager = listing \<rparr>),
         nextAddr := Suc (nextAddr c) \<rparr>)"

text \<open>The inner loop over the EventHubs listed for the namespace at address \<open>a\<close>.\<close>

fun Update_eventHubs :: "addr \<Rightarrow> string list \<Rightarrow> Cache \<Rightarrow> Cache" where
  "Update_eventHubs a [] c = c"
| "Update_eventHubs a (eventHub # rest) c =
     Update_eventHubs a rest
       (c\<lparr> eventhubMap := (eventhubMap c)(eventHub \<mapsto> Some a),
           heap := (heap c)(a := (heap c a)\<lparr> Count := Count (heap c a) + 1 \<rparr>) \<rparr>)"

text \<open>
  The outer loop over \<^verbatim>\<open>kafkaSecrets.Items\<close>. Each item comes with the outcome of the
  \<^verbatim>\<open>List\<close> call on the hub manager built from it. The result is the returned error
  (\<open>None\<close> for \<^verbatim>\<open>nil\<close>) and the cache as the call leaves it.
\<close>

fun Update_secrets ::
    "(KafkaSecret \<times> (error + string list)) list \<Rightarrow> Cache \<Rightarrow> error option \<times> Cache" where
  "Update_secrets [] c = (None, c)"
| "Update_secrets ((kafkaSecret, listing) # rest) c =
     (if \<not> validateKafkaSecret (Some kafkaSecret)
      then (Some (Err ''invalid Kafka Secret found''), c)
      else
        (case NewNamespaceFromKafkaSecret kafkaSecret listing c of
           (a, c1) \<Rightarrow>
             let c2 = c1\<lparr> namespaceMap := (namespaceMap c1)(Name (heap c1 a) \<mapsto> Some a) \<rparr>
             in (case HubManager (heap c2 a) of
                   Inl err \<Rightarrow> (Some err, c2)
                 | Inr eventHubs \<Rightarrow> Update_secrets rest (Update_eventHubs a eventHubs c2))))"

text \<open>
  \<^verbatim>\<open>Update\<close>: the first argument is the outcome of \<^verbatim>\<open>util.GetKafkaSecrets\<close>, the
  credential snapshot or the error of fetching it.
\<close>

definition Update ::
    "error + (KafkaSecret \<times> (error + string list)) list \<Rightarrow> Cache \<Rightarrow> error option \<times> Cache" where
  "Update kafkaSecrets c =
     (case kafkaSecrets of
        Inl err \<Rightarrow> (Some err, c)
      | Inr items \<Rightarrow> Update_secrets items c)"

text \<open>
  The first step of \<^verbatim>\<open>Update\<close> for a valid record: the new namespace is allocated and
  stored in the namespace mapping under its name.
\<close>

definition store_namespace :: "KafkaSecret \<Rightarrow> error + string list \<Rightarrow> Cache \<Rightarrow> Cache" where
  "store_namespace kafkaSecret listing c =
     (case NewNamespaceFromKafkaSecret kafkaSecret listing c of
        (a, c1) \<Rightarrow> c1\<lparr> namespaceMap := (namespaceMap c1)(Name (heap c1 a) \<mapsto> Some a) \<rparr>)"

subsection \<open>Invariants of the cache\<close>

text \<open>Every namespace of the namespace mapping has a count between 0 and the capacity.\<close>

definition count_in_bounds :: "int \<Rightarrow> Cache \<Rightarrow> addr \<Rightarrow> bool" where
  "count_in_bounds maxCap c a \<longleftrightarrow> 0 \<le> Count (heap c a) \<and> Count (heap c a) \<le> maxCap"

definition counts_in_bounds :: "int \<Rightarrow> Cache \<Rightarrow> bool" where
  "counts_in_bounds maxCap c \<longleftrightarrow>
     (\<forall>n a. namespaceMap c n = Some (Some a) \<longrightarrow> count_in_bounds maxCap c a)"

text \<open>
  The consistency invariant of the two mappings: the topic mapping is finite (as every
  Go map is), each of its entries points to a namespace of the namespace mapping, and
  the count of each namespace is the number of topic entries that point to it.
\<close>

definition cache_inv :: "Cache \<Rightarrow> bool" where
  "cache_inv c \<longleftrightarrow>
     finite (dom (eventhubMap c)) \<and>
     (\<forall>t p. eventhubMap c t = Some p \<longrightarrow> p \<noteq> None \<and> (\<exists>n. namespaceMap c n = Some p)) \<and>
     (\<forall>n a. namespaceMap c n = Some (Some a) \<longrightarrow>
        Count (heap c a) = int (card {t. eventhubMap c t = Some (Some a)}))"

text \<open>
  The calls of \<^verbatim>\<open>AddEventHub\<close> that keep the invariant: those that change nothing
  (a \<^verbatim>\<open>nil\<close> namespace, or one at capacity), and those that add a topic that has no
  entry yet to a namespace of the namespace mapping.
\<close>

definition add_ok :: "int \<Rightarrow> Cache \<Rightarrow> string \<Rightarrow> ptr \<Rightarrow> bool" where
  "add_ok maxCap c eventhub namespace \<longleftrightarrow>
     (case namespace of
        None \<Rightarrow> True
      | Some a \<Rightarrow> Count (heap c a) < maxCap \<longrightarrow>
          eventhubMap c eventhub = None \<and> (\<exists>n. namespaceMap c n = Some (Some a)))"

fun call_ok :: "int \<Rightarrow> cache_call \<Rightarrow> Cache \<Rightarrow> bool" where
  "call_ok maxCap (AddTopic eventhub namespace) c = add_ok maxCap c eventhub namespace"
| "call_ok maxCap (RemoveTopic eventhub) c = True"

fun calls_ok :: "int \<Rightarrow> cache_call list \<Rightarrow> Cache \<Rightarrow> bool" where
  "calls_ok maxCap [] c = True"
| "calls_ok maxCap (x # xs) c = (call_ok maxCap x c \<and> calls_ok maxCap xs (apply_call maxCap x c))"

subsection \<open>Example cache states\<close>

definition emptyCache :: Cache where
  "emptyCache =
     \<lparr> heap = (\<lambda>_. \<lparr> Name = [], Count = 0, HubManager = Inr [] \<rparr>), nextAddr = 0,
       namespaceMap = Map.empty, eventhubMap = Map.empty \<rparr>"

text \<open>One namespace with room for one more topic (capacity 10).\<close>

definition almostFull :: Cache where
  "almostFull =
     \<lparr> heap = (\<lambda>_. \<lparr> Name = ''ns1'', Count = 9, HubManager = Inr [] \<rparr>), nextAddr = 1,
       namespaceMap = [''ns1'' \<mapsto> Some 0], eventhubMap = Map.empty \<rparr>"

text \<open>One empty namespace, no topics.\<close>

definition oneNamespace :: Cache where
  "oneNamespace =
     \<lparr> heap = (\<lambda>_. \<lparr> Name = ''ns1'', Count = 0, HubManager = Inr [] \<rparr>), nextAddr = 1,
       namespaceMap = [''ns1'' \<mapsto> Some 0], eventhubMap = Map.empty \<rparr>"

text \<open>The example of the specification: A with 3 topics, B with 1, C with 10, capacity 10.\<close>

definition threeNamespaces :: Cache where
  "threeNamespaces =
     \<lparr> heap = (\<lambda>a. if a = 0 then \<lparr> Name = ''A'', Count = 3, HubManager = Inr [] \<rparr>
                else if a = 1 then \<lparr> Name = ''B'', Count = 1, HubManager = Inr [] \<rparr>
                else \<lparr> Name = ''C'', Count = 10, HubManager = Inr [] \<rparr>),
       nextAddr = 3,
       namespaceMap = [''A'' \<mapsto> Some 0, ''B'' \<mapsto> Some 1, ''C'' \<mapsto> Some 2],
       eventhubMap = Map.empty \<rparr>"

definition goodSecret :: KafkaSecret where
  "goodSecret = \<lparr> secretName = ''s1'', dataBrokers = ''b:9093'', dataUsername = ''u'',
                    dataPassword = ''p'', dataNamespace = ''ns1'' \<rparr>"

definition badSecret :: KafkaSecret where
  "badSecret = \<lparr> secretName = ''s2'', dataBrokers = ''b:9093'', dataUsername = ''u'',
                   dataPassword = [], dataNamespace = ''ns2'' \<rparr>"

section \<open>The channel reconciler (controller/kafkachannel.go)\<close>

subsection \<open>Data model\<close>

text \<open>
  The declared channel resource and its status, as far as the reconciler reads and
  writes them. The types come from packages outside the sources at hand; their fields
  are the ones the reconciler names. The type of a subscriber's destination URI is the
  parameter \<open>'u\<close>, compared by Go's \<^verbatim>\<open>==\<close>; everything in the channel status besides
  the subscriber statuses is the parameter \<open>'c\<close>. A slice is a \<open>list option\<close>, with
  \<open>None\<close> for the \<^verbatim>\<open>nil\<close> slice, which \<^verbatim>\<open>== nil\<close> and \<^verbatim>\<open>reflect.DeepEqual\<close> tell apart from
  an empty one. \<^verbatim>\<open>Generation\<close> is an \<^verbatim>\<open>int64\<close> that is only copied. Where two
  structs have a field of the same name, the later record's field carries a prefix
  (\<open>StatusUID\<close>, \<open>StatusSubscribers\<close>, \<open>ObjNamespace\<close>, \<open>ObjName\<close>).
\<close>

datatype ConditionStatus = ConditionTrue | ConditionFalse | ConditionUnknown

record 'u SubscriberSpec =
  UID :: string
  Generation :: "64 word"
  SubscriberURI :: 'u

record 'u SubscribableSpec =
  Subscribers :: "'u SubscriberSpec list option"

record SubscriberStatus =
  StatusUID :: string
  ObservedGeneration :: "64 word"
  Ready :: ConditionStatus
  Message :: string

record SubscribableStatus =
  StatusSubscribers :: "SubscriberStatus list option"

text \<open>
  \<^verbatim>\<open>dispatcher.Subscription\<close>, a struct of the two fields that the composite literals
  of the reconciler set. Go compares struct values used as map keys field by field, as
  equality on the record does.
\<close>

record 'u Subscription =
  URI :: 'u
  GroupId :: string

text \<open>
  Of \<^verbatim>\<open>channel.Spec\<close> the reconciler reads the embedded \<^verbatim>\<open>SubscribableSpec\<close> only.
\<close>

record 'c KafkaChannelStatus =
  Conditions :: 'c
  SubscribableStatus :: SubscribableStatus

record ('u, 'c) KafkaChannel =
  ObjNamespace :: string
  ObjName :: string
  Spec :: "'u SubscribableSpec"
  Status :: "'c KafkaChannelStatus"

text \<open>
  What a reconcile does to its collaborators, in order: reads of the lister, calls of
  the dispatcher, status writes through the client set, and recorded events (type,
  reason, message). Log lines are left out.
\<close>

datatype EventType = EventTypeNormal | EventTypeWarning

datatype ('u, 'c) effect =
    ListerGet string string
  | DispatcherUpdate "'u Subscription list"
  | StatusWrite "('u, 'c) KafkaChannel"
  | RecordEvent EventType string string

text \<open>
  The reconciler with its collaborators, each given by what it answers:
  \<^verbatim>\<open>dispatcher.ChannelKey\<close> and \<^verbatim>\<open>dispatcher.UpdateSubscriptions\<close> (the failure mapping
  holds an error for each subscription that failed), \<^verbatim>\<open>kafkachannelLister ... Get\<close>,
  \<^verbatim>\<open>KafkaClientSet ... UpdateStatus\<close>, and the two library functions
  \<^verbatim>\<open>cache.SplitMetaNamespaceKey\<close> and \<^verbatim>\<open>Status.IsReady\<close>.
\<close>

record ('u, 'c) Reconciler =
  ChannelKey :: string
  UpdateSubscriptions :: "'u Subscription list \<Rightarrow> ('u Subscription \<rightharpoonup> error)"
  listerGet :: "string \<Rightarrow> string \<Rightarrow> error + ('u, 'c) KafkaChannel"
  UpdateStatus :: "('u, 'c) KafkaChannel \<Rightarrow> error + ('u, 'c) KafkaChannel"
  SplitMetaNamespaceKey :: "string \<Rightarrow> error + string \<times> string"
  IsReady :: "'c KafkaChannelStatus \<Rightarrow> bool"

definition channelReconciled :: string where
  "channelReconciled = ''ChannelReconciled''"
definition channelReconcileFailed :: string where
  "channelReconcileFailed = ''ChannelReconcileFailed''"
definition channelUpdateStatusFailed :: string where
  "channelUpdateStatusFailed = ''ChannelUpdateStatusFailed''"

text \<open>Ranging over a slice: the \<^verbatim>\<open>nil\<close> slice has no elements.\<close>

definition range_slice :: "'a list option \<Rightarrow> 'a list" where
  "range_slice s = (case s of None \<Rightarrow> [] | Some xs \<Rightarrow> xs)"

text \<open>
  The subscription built for a subscriber, in \<^verbatim>\<open>reconcile\<close> and again in
  \<^verbatim>\<open>createSubscribableStatus\<close>: the subscriber's URI and the group id
  \<^verbatim>\<open>fmt.Sprintf("kafka.%s", UID)\<close>.
\<close>

definition subscriptionOf :: "'u SubscriberSpec \<Rightarrow> 'u Subscription" where
  "subscriptionOf subscriber =
     \<lparr> URI = SubscriberURI subscriber, GroupId = ''kafka.'' @ UID subscriber \<rparr>"

text \<open>The body of the loop of \<^verbatim>\<open>createSubscribableStatus\<close> for one subscriber.\<close>

definition subscriberStatusOf ::
    "('u Subscription \<rightharpoonup> error) \<Rightarrow> 'u SubscriberSpec \<Rightarrow> SubscriberStatus" where
  "subscriberStatusOf failedSubscriptions sub =
     (let status = \<lparr> StatusUID = UID sub, ObservedGeneration = Generation sub,
                      Ready = ConditionTrue, Message = [] \<rparr>
      in case failedSubscriptions (subscriptionOf sub) of
           Some err \<Rightarrow> status\<lparr> Ready := ConditionFalse, Message := ErrorMsg err \<rparr>
         | None \<Rightarrow> status)"

fun subscriberStatusLoop ::
    "('u Subscription \<rightharpoonup> error) \<Rightarrow> SubscriberStatus list \<Rightarrow> 'u SubscriberSpec list \<Rightarrow>
     SubscriberStatus list" where
  "subscriberStatusLoop failedSubscriptions subscriberStatus [] = subscriberStatus"
| "subscriberStatusLoop failedSubscriptions subscriberStatus (sub # rest) =
     subscriberStatusLoop failedSubscriptions
       (subscriberStatus @ [subscriberStatusOf failedSubscriptions sub]) rest"

definition createSubscribableStatus ::
    "'u SubscribableSpec \<Rightarrow> ('u Subscription \<rightharpoonup> error) \<Rightarrow> SubscribableStatus" where
  "createSubscribableStatus subscribable failedSubscriptions =
     \<lparr> StatusSubscribers =
         Some (subscriberStatusLoop failedSubscriptions [] (range_slice (Subscribers subscribable))) \<rparr>"

text \<open>The loop of \<^verbatim>\<open>reconcile\<close> that appends one subscription per subscriber.\<close>

fun subscriptionsLoop :: "'u Subscription list \<Rightarrow> 'u SubscriberSpec list \<Rightarrow> 'u Subscription list" where
  "subscriptionsLoop subscriptions [] = subscriptions"
| "subscriptionsLoop subscriptions (subscriber # rest) =
     subscriptionsLoop (subscriptions @ [subscriptionOf subscriber]) rest"

text \<open>
  \<^verbatim>\<open>reconcile\<close> returns its error, the channel with the status it has set, and the
  dispatcher calls it has made.
\<close>

definition reconcile ::
    "('u, 'c) Reconciler \<Rightarrow> ('u, 'c) KafkaChannel \<Rightarrow>
     error option \<times> ('u, 'c) KafkaChannel \<times> ('u, 'c) effect list" where
  "reconcile r channel =
     (case Subscribers (Spec channel) of
        None \<Rightarrow> (None, channel, [])
      | Some subscribers \<Rightarrow>
          let subscriptions = subscriptionsLoop [] subscribers;
              failedSubscriptions = UpdateSubscriptions r subscriptions;
              channel' = channel\<lparr> Status := (Status channel)\<lparr> SubscribableStatus :=
                           createSubscribableStatus (Spec channel) failedSubscriptions \<rparr> \<rparr>
          in (if failedSubscriptions \<noteq> Map.empty
              then Some (Err ''Some kafka subscriptions failed to subscribe'')
              else None,
              channel', [DispatcherUpdate subscriptions]))"

definition updateStatus ::
    "('u, 'c) Reconciler \<Rightarrow> ('u, 'c) KafkaChannel \<Rightarrow>
     (error + ('u, 'c) KafkaChannel) \<times> ('u, 'c) effect list" where
  "updateStatus r desired =
     (case listerGet r (ObjNamespace desired) (ObjName desired) of
        Inl err \<Rightarrow> (Inl err, [ListerGet (ObjNamespace desired) (ObjName desired)])
      | Inr kc \<Rightarrow>
          if Status kc = Status desired
          then (Inr kc, [ListerGet (ObjNamespace desired) (ObjName desired)])
          else
            let existing = kc\<lparr> Status := Status desired \<rparr>
            in (UpdateStatus r existing,
                [ListerGet (ObjNamespace desired) (ObjName desired), StatusWrite existing]))"

definition Reconcile ::
    "('u, 'c) Reconciler \<Rightarrow> string \<Rightarrow> error option \<times> ('u, 'c) effect list" where
  "Reconcile r key =
     (case SplitMetaNamespaceKey r key of
        Inl err \<Rightarrow> (None, [])
      | Inr (namespace, name) \<Rightarrow>
          (case listerGet r namespace name of
             Inl err \<Rightarrow>
               if IsNotFound err then (None, [ListerGet namespace name])
               else (Some err, [ListerGet namespace name])
           | Inr original \<Rightarrow>
               if ChannelKey r \<noteq> key then (None, [ListerGet namespace name])
               else if \<not> IsReady r (Status original)
               then (Some (Err ''Channel is not ready. Cannot configure and update subscriber status''),
                     [ListerGet namespace name])
               else
                 (case reconcile r original of
                    (reconcileError, channel, dispatched) \<Rightarrow>
                      let outcome =
                            (case reconcileError of
                               Some e \<Rightarrow> RecordEvent EventTypeWarning channelReconcileFailed
                                           (''KafkaChannel Reconciliation Failed: '' @ ErrorMsg e)
                             | None \<Rightarrow> RecordEvent EventTypeNormal channelReconciled
                                           ''KafkaChannel Reconciled'')
                      in (case updateStatus r channel of
                            (Inl updateStatusErr, written) \<Rightarrow>
                              (Some updateStatusErr,
                               [ListerGet namespace name] @ dispatched @ [outcome] @ written @
                               [RecordEvent EventTypeWarning channelUpdateStatusFailed
                                  (''Failed to update KafkaChannel's status: '' @ ErrorMsg updateStatusErr)])
                          | (Inr _, written) \<Rightarrow>
                              (None, [ListerGet namespace name] @ dispatched @ [outcome] @ written)))))"

subsection \<open>Example subscribers, channels and collaborators\<close>

definition subscriberA :: "string SubscriberSpec" where
  "subscriberA = \<lparr> UID = ''u1'', Generation = 1, SubscriberURI = ''http://a'' \<rparr>"

text \<open>The same subscriber identifier as \<open>subscriberA\<close>, another destination.\<close>

definition subscriberA' :: "string SubscriberSpec" where
  "subscriberA' = \<lparr> UID = ''u1'', Generation = 2, SubscriberURI = ''http://b'' \<rparr>"

definition subscriberB :: "string SubscriberSpec" where
  "subscriberB = \<lparr> UID = ''u2'', Generation = 1, SubscriberURI = ''http://c'' \<rparr>"

definition failedA :: "string Subscription \<rightharpoonup> error" where
  "failedA = [subscriptionOf subscriberA \<mapsto> Err ''boom'']"

definition failedB :: "string Subscription \<rightharpoonup> error" where
  "failedB = [subscriptionOf subscriberB \<mapsto> Err ''boom'']"

text \<open>A ready channel that declares an empty, non-nil subscriber list.\<close>

definition storedChannel :: "(string, bool) KafkaChannel" where
  "storedChannel =
     \<lparr> ObjNamespace = ''ns'', ObjName = ''ch'',
       Spec = \<lparr> Subscribers = Some [] \<rparr>,
       Status = \<lparr> Conditions = True, SubscribableStatus = \<lparr> StatusSubscribers = None \<rparr> \<rparr> \<rparr>"

text \<open>The same channel with no subscriber list at all.\<close>

definition bareChannel :: "(string, bool) KafkaChannel" where
  "bareChannel = storedChannel\<lparr> Spec := \<lparr> Subscribers = None \<rparr> \<rparr>"

definition changedChannel :: "(string, bool) KafkaChannel" where
  "changedChannel = storedChannel\<lparr> Status :=
      \<lparr> Conditions = True, SubscribableStatus = \<lparr> StatusSubscribers = Some [] \<rparr> \<rparr> \<rparr>"

text \<open>
  Collaborators that never fail: the dispatcher reports no failure, the lister knows
  the one channel \<^verbatim>\<open>ns/ch\<close>, every status write succeeds.
\<close>

definition exampleReconciler :: "(string, bool) Reconciler" where
  "exampleReconciler =
     \<lparr> ChannelKey = ''ns/ch'',
       UpdateSubscriptions = (\<lambda>subscriptions. Map.empty),
       listerGet = (\<lambda>namespace name.
          if namespace = ''ns'' \<and> name = ''ch'' then Inr storedChannel
          else Inl (NotFound ''kafkachannel not found'')),
       UpdateStatus = (\<lambda>channel. Inr channel),
       SplitMetaNamespaceKey = (\<lambda>key.
          if key = ''ns/ch'' then Inr (''ns'', ''ch'')
          else Inl (Err ''unexpected key format'')),
       IsReady = Conditions \<rparr>"
section \<open>Properties of the namespace cache\<close>

subsection \<open>Capacity bounds\<close>

lemma AddEventHub_bounds:
  "count_in_bounds maxCap c a \<Longrightarrow> count_in_bounds maxCap (AddEventHub maxCap t p c) a"
  by (auto simp: AddEventHub_def count_in_bounds_def split: option.splits)

lemma RemoveEventHub_bounds:
  "count_in_bounds maxCap c a \<Longrightarrow> count_in_bounds maxCap (RemoveEventHub t c) a"
  by (auto simp: RemoveEventHub_def count_in_bounds_def Let_def split: option.splits)

lemma apply_call_bounds:
  "count_in_bounds maxCap c a \<Longrightarrow> count_in_bounds maxCap (apply_call maxCap x c) a"
  by (cases x) (simp_all add: AddEventHub_bounds RemoveEventHub_bounds)

lemma apply_calls_bounds:
  "count_in_bounds maxCap c a \<Longrightarrow> count_in_bounds maxCap (apply_calls maxCap xs c) a"
  by (induction xs arbitrary: c) (simp_all add: apply_call_bounds)

lemma apply_call_namespaceMap: "namespaceMap (apply_call maxCap x c) = namespaceMap c"
  by (cases x) (simp_all add: AddEventHub_def RemoveEventHub_def Let_def split: option.splits)

lemma apply_calls_namespaceMap: "namespaceMap (apply_calls maxCap xs c) = namespaceMap c"
  by (induction xs arbitrary: c) (simp_all add: apply_call_namespaceMap)

text \<open>
  C5. Starting from a cache in which every namespace's count lies between 0 and the
  maximum capacity, after every prefix of every sequence of AddTopic and RemoveTopic
  calls every namespace's count still lies between 0 and the maximum capacity: no count
  ever exceeds the capacity and none ever becomes negative.
\<close>

theorem capacity_invariant:
  assumes "counts_in_bounds maxCap c"
  shows "counts_in_bounds maxCap (apply_calls maxCap (take k calls) c)"
  unfolding counts_in_bounds_def
proof (intro allI impI)
  fix n a
  assume "namespaceMap (apply_calls maxCap (take k calls) c) n = Some (Some a)"
  then have "namespaceMap c n = Some (Some a)"
    by (simp add: apply_calls_namespaceMap)
  with assms have "count_in_bounds maxCap c a"
    unfolding counts_in_bounds_def by blast
  then show "count_in_bounds maxCap (apply_calls maxCap (take k calls) c) a"
    by (rule apply_calls_bounds)
qed

lemma almostFull_bounds: "counts_in_bounds 10 almostFull"
  by (simp add: counts_in_bounds_def count_in_bounds_def almostFull_def)

theorem capacity_invariant_witness:
  "counts_in_bounds 10 almostFull \<and>
   counts_in_bounds 10
     (apply_calls 10 (take 3 [AddTopic ''t1'' (Some 0), AddTopic ''t2'' (Some 0),
                              RemoveTopic ''t1'', RemoveTopic ''t1'']) almostFull) \<and>
   Count (heap (apply_calls 10 [AddTopic ''t1'' (Some 0), AddTopic ''t2'' (Some 0)] almostFull) 0) = 10"
proof -
  have "Count (heap (apply_calls 10 [AddTopic ''t1'' (Some 0), AddTopic ''t2'' (Some 0)] almostFull) 0) = 10"
    by (simp add: almostFull_def AddEventHub_def)
  then show ?thesis
    using almostFull_bounds capacity_invariant [OF almostFull_bounds] by blast
qed

subsection \<open>RemoveEventHub\<close>

text \<open>
  C9. RemoveTopic decrements the count of a namespace exactly when the topic is mapped to
  that namespace and the count is positive, always deletes the topic's entry (and no
  other), leaves the namespace mapping alone, and a second RemoveTopic of the same topic
  leaves the state as the first one left it; removing a topic that has no entry changes
  no namespace.
\<close>

theorem RemoveEventHub_idempotent:
  "(\<forall>a. Count (heap (RemoveEventHub t c) a) =
         (if GetNamespace c t = Some a \<and> 0 < Count (heap c a)
          then Count (heap c a) - 1 else Count (heap c a))) \<and>
   eventhubMap (RemoveEventHub t c) = (eventhubMap c)(t := None) \<and>
   namespaceMap (RemoveEventHub t c) = namespaceMap c \<and>
   RemoveEventHub t (RemoveEventHub t c) = RemoveEventHub t c \<and>
   (eventhubMap c t = None \<longrightarrow> heap (RemoveEventHub t c) = heap c)"
proof -
  have 1: "\<forall>a. Count (heap (RemoveEventHub t c) a) =
         (if GetNamespace c t = Some a \<and> 0 < Count (heap c a)
          then Count (heap c a) - 1 else Count (heap c a))"
    by (auto simp: RemoveEventHub_def Let_def split: option.splits)
  have 2: "eventhubMap (RemoveEventHub t c) = (eventhubMap c)(t := None)"
    by (auto simp: RemoveEventHub_def Let_def split: option.splits)
  have 3: "namespaceMap (RemoveEventHub t c) = namespaceMap c"
    by (auto simp: RemoveEventHub_def Let_def split: option.splits)
  have 4: "RemoveEventHub t (RemoveEventHub t c) = RemoveEventHub t c"
    by (auto simp: RemoveEventHub_def Let_def GetNamespace_def index_map_def split: option.splits)
  have 5: "eventhubMap c t = None \<longrightarrow> heap (RemoveEventHub t c) = heap c"
    by (simp add: RemoveEventHub_def Let_def GetNamespace_def index_map_def)
  from 1 2 3 4 5 show ?thesis by blast
qed

theorem RemoveEventHub_idempotent_witness:
  "eventhubMap oneNamespace ''t1'' = None \<and>
   heap (RemoveEventHub ''t1'' oneNamespace) = heap oneNamespace \<and>
   RemoveEventHub ''t1'' (RemoveEventHub ''t1'' oneNamespace) = RemoveEventHub ''t1'' oneNamespace \<and>
   GetNamespace (AddEventHub 10 ''t1'' (Some 0) oneNamespace) ''t1'' = Some 0 \<and>
   Count (heap (AddEventHub 10 ''t1'' (Some 0) oneNamespace) 0) = 1 \<and>
   Count (heap (RemoveEventHub ''t1'' (AddEventHub 10 ''t1'' (Some 0) oneNamespace)) 0) = 0"
proof -
  have a: "eventhubMap oneNamespace ''t1'' = None"
    by (simp add: oneNamespace_def)
  have b: "GetNamespace (AddEventHub 10 ''t1'' (Some 0) oneNamespace) ''t1'' = Some 0"
    by (simp add: oneNamespace_def AddEventHub_def GetNamespace_def index_map_def)
  have c: "Count (heap (AddEventHub 10 ''t1'' (Some 0) oneNamespace) 0) = 1"
    by (simp add: oneNamespace_def AddEventHub_def)
  show ?thesis
    using a b c RemoveEventHub_idempotent [of "''t1''" oneNamespace]
      RemoveEventHub_idempotent [of "''t1''" "AddEventHub 10 ''t1'' (Some 0) oneNamespace"]
    by simp
qed

subsection \<open>Consistency of the two mappings\<close>

lemma finite_pointing: "finite (dom m) \<Longrightarrow> finite {t. m t = Some v}"
  by (rule finite_subset [where B = "dom m"]) auto

lemma pointing_upd_same:
  "m t = None \<Longrightarrow> {t'. (m(t \<mapsto> v)) t' = Some v} = insert t {t'. m t' = Some v}"
  by auto

lemma pointing_upd_other:
  "m t = None \<Longrightarrow> v \<noteq> w \<Longrightarrow> {t'. (m(t \<mapsto> v)) t' = Some w} = {t'. m t' = Some w}"
  by auto

lemma pointing_del_same:
  "{t'. (m(t := None)) t' = Some v} = {t'. m t' = Some v} - {t}"
  by auto

lemma AddEventHub_inv:
  assumes "cache_inv c" and "add_ok maxCap c t p"
  shows "cache_inv (AddEventHub maxCap t p c)"
proof (cases p)
  case None
  then show ?thesis using assms by (simp add: AddEventHub_def)
next
  case (Some a)
  show ?thesis
  proof (cases "Count (heap c a) < maxCap")
    case False
    then show ?thesis using assms Some by (simp add: AddEventHub_def)
  next
    case True
    with assms Some have fresh: "eventhubMap c t = None"
      and known: "\<exists>n. namespaceMap c n = Some (Some a)"
      by (auto simp: add_ok_def)
    let ?c' = "AddEventHub maxCap t p c"
    have eq: "?c' = c\<lparr> heap := (heap c)(a := (heap c a)\<lparr> Count := Count (heap c a) + 1 \<rparr>),
                  eventhubMap := (eventhubMap c)(t \<mapsto> Some a) \<rparr>"
      using True Some by (simp add: AddEventHub_def)
    have fin: "finite (dom (eventhubMap c))" using assms(1) by (simp add: cache_inv_def)
    have emap: "eventhubMap ?c' = (eventhubMap c)(t \<mapsto> Some a)" by (simp add: eq)
    have 1: "finite (dom (eventhubMap ?c'))" using fin by (simp add: eq)
    have 2: "\<forall>t' q. eventhubMap ?c' t' = Some q \<longrightarrow> q \<noteq> None \<and> (\<exists>n. namespaceMap ?c' n = Some q)"
      using assms(1) known by (auto simp: eq cache_inv_def)
    have 3: "Count (heap ?c' b) = int (card {t'. eventhubMap ?c' t' = Some (Some b)})"
      if b: "namespaceMap ?c' n = Some (Some b)" for n b
    proof -
      from b have old: "Count (heap c b) = int (card {t'. eventhubMap c t' = Some (Some b)})"
        using assms(1) by (simp add: eq cache_inv_def)
      show ?thesis
      proof (cases "b = a")
        case True
        have "t \<notin> {t'. eventhubMap c t' = Some (Some a)}" using fresh by simp
        moreover have "finite {t'. eventhubMap c t' = Some (Some a)}" using fin by (rule finite_pointing)
        ultimately have "card (insert t {t'. eventhubMap c t' = Some (Some a)}) = Suc (card {t'. eventhubMap c t' = Some (Some a)})"
          by (rule card_insert_disjoint [rotated])
        moreover have "{t'. eventhubMap ?c' t' = Some (Some a)} = insert t {t'. eventhubMap c t' = Some (Some a)}"
          unfolding emap using fresh by (rule pointing_upd_same)
        moreover have "Count (heap ?c' a) = Count (heap c a) + 1"
          by (simp add: eq)
        ultimately show ?thesis using old True by simp
      next
        case False
        then have "{t'. ((eventhubMap c)(t \<mapsto> Some a)) t' = Some (Some b)} = {t'. eventhubMap c t' = Some (Some b)}"
          using fresh by (intro pointing_upd_other) auto
        then have "{t'. eventhubMap ?c' t' = Some (Some b)} = {t'. eventhubMap c t' = Some (Some b)}"
          unfolding emap .
        moreover have "Count (heap ?c' b) = Count (heap c b)"
          using False by (simp add: eq)
        ultimately show ?thesis using old by simp
      qed
    qed
    show ?thesis unfolding cache_inv_def using 1 2 3 by blast
  qed
qed

text \<open>
  The condition is also necessary: an \<^verbatim>\<open>AddEventHub\<close> that keeps the invariant
  satisfies it.
\<close>

lemma AddEventHub_inv_only_if:
  assumes inv: "cache_inv c" and inv': "cache_inv (AddEventHub maxCap t p c)"
  shows "add_ok maxCap c t p"
proof (rule ccontr)
  assume bad: "\<not> add_ok maxCap c t p"
  then obtain a where p: "p = Some a" and room: "Count (heap c a) < maxCap"
    and why: "eventhubMap c t \<noteq> None \<or> \<not> (\<exists>n. namespaceMap c n = Some (Some a))"
    by (auto simp: add_ok_def split: option.splits)
  let ?c' = "AddEventHub maxCap t p c"
  have eq: "?c' = c\<lparr> heap := (heap c)(a := (heap c a)\<lparr> Count := Count (heap c a) + 1 \<rparr>),
                  eventhubMap := (eventhubMap c)(t \<mapsto> Some a) \<rparr>"
    using room p by (simp add: AddEventHub_def)
  have emap: "eventhubMap ?c' = (eventhubMap c)(t \<mapsto> Some a)" by (simp add: eq)
  have nmap: "namespaceMap ?c' = namespaceMap c" by (simp add: eq)
  have "eventhubMap ?c' t = Some (Some a)" by (simp add: emap)
  with inv' have "\<exists>n. namespaceMap ?c' n = Some (Some a)"
    unfolding cache_inv_def by blast
  then obtain n where n: "namespaceMap c n = Some (Some a)"
    unfolding nmap by blast
  with why obtain q where q: "eventhubMap c t = Some q" by auto
  with inv obtain b n' where b: "q = Some b" and n': "namespaceMap c n' = Some (Some b)"
    unfolding cache_inv_def by (metis option.exhaust)
  have fin: "finite (dom (eventhubMap c))" using inv by (simp add: cache_inv_def)
  show False
  proof (cases "b = a")
    case True
    have "{t'. eventhubMap ?c' t' = Some (Some a)} = {t'. eventhubMap c t' = Some (Some a)}"
      unfolding emap using q b True by auto
    moreover have "Count (heap ?c' a) = int (card {t'. eventhubMap ?c' t' = Some (Some a)})"
      using inv' n unfolding cache_inv_def nmap by blast
    moreover have "Count (heap c a) = int (card {t'. eventhubMap c t' = Some (Some a)})"
      using inv n unfolding cache_inv_def by blast
    moreover have "Count (heap ?c' a) = Count (heap c a) + 1" by (simp add: eq)
    ultimately show False by simp
  next
    case False
    have mem: "t \<in> {t'. eventhubMap c t' = Some (Some b)}" using q b by simp
    have finb: "finite {t'. eventhubMap c t' = Some (Some b)}" using fin by (rule finite_pointing)
    have "card ({t'. eventhubMap c t' = Some (Some b)} - {t}) < card {t'. eventhubMap c t' = Some (Some b)}"
      using finb mem by (rule card_Diff1_less)
    moreover have "{t'. eventhubMap ?c' t' = Some (Some b)} = {t'. eventhubMap c t' = Some (Some b)} - {t}"
      unfolding emap using False by auto
    ultimately have "card {t'. eventhubMap ?c' t' = Some (Some b)} < card {t'. eventhubMap c t' = Some (Some b)}"
      by (simp only:)
    moreover have "Count (heap ?c' b) = int (card {t'. eventhubMap ?c' t' = Some (Some b)})"
      using inv' n' unfolding cache_inv_def nmap by blast
    moreover have "Count (heap c b) = int (card {t'. eventhubMap c t' = Some (Some b)})"
      using inv n' unfolding cache_inv_def by blast
    moreover have "Count (heap ?c' b) = Count (heap c b)" using False by (simp add: eq)
    ultimately show False by simp
  qed
qed

lemma RemoveEventHub_inv:
  assumes "cache_inv c"
  shows "cache_inv (RemoveEventHub t c)"
proof (cases "eventhubMap c t")
  case None
  then have "(eventhubMap c)(t := None) = eventhubMap c" by auto
  then have "RemoveEventHub t c = c"
    using None by (simp add: RemoveEventHub_def GetNamespace_def index_map_def)
  then show ?thesis using assms by simp
next
  case (Some p)
  with assms have "p \<noteq> None \<and> (\<exists>n. namespaceMap c n = Some p)"
    unfolding cache_inv_def by blast
  then obtain a n where p: "p = Some a" and n: "namespaceMap c n = Some (Some a)"
    by auto
  have fin: "finite (dom (eventhubMap c))" using assms by (simp add: cache_inv_def)
  have fina: "finite {t'. eventhubMap c t' = Some (Some a)}" using fin by (rule finite_pointing)
  have cnt: "Count (heap c a) = int (card {t'. eventhubMap c t' = Some (Some a)})"
    using assms n by (auto simp: cache_inv_def)
  have mem: "t \<in> {t'. eventhubMap c t' = Some (Some a)}" using Some p by simp
  then have pos: "0 < card {t'. eventhubMap c t' = Some (Some a)}"
    using fina by (auto simp: card_gt_0_iff)
  let ?c' = "RemoveEventHub t c"
  have eq: "?c' = c\<lparr> heap := (heap c)(a := (heap c a)\<lparr> Count := Count (heap c a) - 1 \<rparr>),
                  eventhubMap := (eventhubMap c)(t := None) \<rparr>"
    using Some p cnt pos by (simp add: RemoveEventHub_def GetNamespace_def index_map_def)
  have emap: "eventhubMap ?c' = (eventhubMap c)(t := None)" by (simp add: eq)
  have 1: "finite (dom (eventhubMap ?c'))" using fin by (simp add: eq)
  have 2: "\<forall>t' q. eventhubMap ?c' t' = Some q \<longrightarrow> q \<noteq> None \<and> (\<exists>n. namespaceMap ?c' n = Some q)"
    using assms by (auto simp: eq cache_inv_def)
  have 3: "Count (heap ?c' b) = int (card {t'. eventhubMap ?c' t' = Some (Some b)})"
    if b: "namespaceMap ?c' n' = Some (Some b)" for n' b
  proof -
    from b have old: "Count (heap c b) = int (card {t'. eventhubMap c t' = Some (Some b)})"
      using assms by (simp add: eq cache_inv_def)
    show ?thesis
    proof (cases "b = a")
      case True
      have "card ({t'. eventhubMap c t' = Some (Some a)} - {t}) = card {t'. eventhubMap c t' = Some (Some a)} - 1"
        using mem fina by simp
      moreover have "{t'. eventhubMap ?c' t' = Some (Some a)} = {t'. eventhubMap c t' = Some (Some a)} - {t}"
        unfolding emap by (rule pointing_del_same)
      moreover have "Count (heap ?c' a) = Count (heap c a) - 1"
        by (simp add: eq)
      ultimately show ?thesis using old True pos by simp
    next
      case False
      then have "{t'. eventhubMap c t' = Some (Some b)} - {t} = {t'. eventhubMap c t' = Some (Some b)}"
        using Some p by auto
      moreover have "{t'. eventhubMap ?c' t' = Some (Some b)} = {t'. eventhubMap c t' = Some (Some b)} - {t}"
        unfolding emap by (rule pointing_del_same)
      moreover have "Count (heap ?c' b) = Count (heap c b)"
        using False by (simp add: eq)
      ultimately show ?thesis using old by simp
    qed
  qed
  show ?thesis unfolding cache_inv_def using 1 2 3 by blast
qed

lemma apply_calls_inv:
  "cache_inv c \<Longrightarrow> calls_ok maxCap calls c \<Longrightarrow> cache_inv (apply_calls maxCap calls c)"
proof (induction calls arbitrary: c)
  case Nil
  then show ?case by simp
next
  case (Cons x xs)
  have "cache_inv (apply_call maxCap x c)"
  proof (cases x)
    case (AddTopic t p)
    then show ?thesis using Cons.prems by (simp add: AddEventHub_inv)
  next
    case (RemoveTopic t)
    then show ?thesis using Cons.prems by (simp add: RemoveEventHub_inv)
  qed
  then show ?case using Cons by simp
qed

lemma oneNamespace_inv: "cache_inv oneNamespace"
  by (simp add: cache_inv_def oneNamespace_def)

lemma pointing_singleton: "{t. ([k \<mapsto> v]) t = Some v} = {k}"
  by auto

text \<open>
  C4, as the code has it. A sequence of AddTopic and RemoveTopic calls preserves the
  invariant (every topic entry points to a namespace of the namespace mapping, and each
  namespace's count is the number of topic entries pointing to it) provided that every
  AddTopic that takes effect names a topic without an entry and a namespace of the
  namespace mapping. RemoveTopic preserves it without any condition.
\<close>

theorem invariant_preserved:
  assumes "cache_inv c" and "calls_ok maxCap calls c"
  shows "cache_inv (apply_calls maxCap calls c)"
  using assms by (rule apply_calls_inv)

theorem invariant_preserved_witness:
  "cache_inv oneNamespace \<and>
   calls_ok 10 [AddTopic ''t1'' (Some 0), RemoveTopic ''t1'', AddTopic ''t1'' (Some 0)] oneNamespace \<and>
   cache_inv (apply_calls 10 [AddTopic ''t1'' (Some 0), RemoveTopic ''t1'', AddTopic ''t1'' (Some 0)] oneNamespace)"
proof -
  have ok: "calls_ok 10 [AddTopic ''t1'' (Some 0), RemoveTopic ''t1'', AddTopic ''t1'' (Some 0)] oneNamespace"
    by (simp add: add_ok_def oneNamespace_def AddEventHub_def RemoveEventHub_def
          GetNamespace_def index_map_def)
  show ?thesis
    using oneNamespace_inv ok invariant_preserved [OF oneNamespace_inv ok] by blast
qed

text \<open>
  C4, as the claim states it, fails: adding a topic that already has an entry increments
  the count a second time while the number of entries stays at one.
\<close>

theorem invariant_readd_counterexample:
  "cache_inv oneNamespace \<and>
   \<not> cache_inv (apply_calls 10 [AddTopic ''t1'' (Some 0), AddTopic ''t1'' (Some 0)] oneNamespace)"
proof -
  let ?c = "apply_calls 10 [AddTopic ''t1'' (Some 0), AddTopic ''t1'' (Some 0)] oneNamespace"
  have cnt: "Count (heap ?c 0) = 2"
    by (simp add: oneNamespace_def AddEventHub_def)
  have ns: "namespaceMap ?c ''ns1'' = Some (Some 0)"
    by (simp add: oneNamespace_def AddEventHub_def)
  have em: "eventhubMap ?c = [''t1'' \<mapsto> Some 0]"
    by (simp add: oneNamespace_def AddEventHub_def)
  have "card {t. eventhubMap ?c t = Some (Some 0)} = 1"
    unfolding em pointing_singleton by simp
  with cnt ns have "\<not> cache_inv ?c"
    unfolding cache_inv_def by fastforce
  then show ?thesis using oneNamespace_inv by blast
qed

subsection \<open>Selection of the namespace with the most room\<close>

lemma loop_None_iff:
  "maxCapacityLoop maxCap h cur ps = None \<longleftrightarrow>
     cur = None \<and> (\<forall>a. Some a \<in> set ps \<longrightarrow> maxCap \<le> Count (h a))"
proof (induction ps arbitrary: cur)
  case Nil
  then show ?case by simp
next
  case (Cons p ps)
  show ?case
  proof (cases p)
    case None
    then show ?thesis using Cons.IH by simp
  next
    case (Some a)
    then show ?thesis using Cons.IH
      by (cases cur) (auto simp: not_less)
  qed
qed

lemma loop_Some:
  assumes "maxCapacityLoop maxCap h cur ps = Some x"
      and "\<forall>a. Some a \<in> set ps \<longrightarrow> 0 \<le> Count (h a)"
      and "\<forall>m. cur = Some m \<longrightarrow> Count (h m) < maxCap \<and> 0 \<le> Count (h m)"
  shows "(cur = Some x \<or> Some x \<in> set ps) \<and> Count (h x) < maxCap \<and>
         (\<forall>m. cur = Some m \<longrightarrow> Count (h x) \<le> Count (h m)) \<and>
         (\<forall>a. Some a \<in> set ps \<longrightarrow> Count (h a) < maxCap \<longrightarrow> Count (h x) \<le> Count (h a))"
  using assms
proof (induction ps arbitrary: cur)
  case Nil
  then show ?case by simp
next
  case (Cons p ps)
  show ?case
  proof (cases p)
    case None
    then show ?thesis using Cons.IH [of cur] Cons.prems by simp
  next
    case (Some a)
    note p = Some
    have a0: "0 \<le> Count (h a)" using Cons.prems(2) p by simp
    have ps0: "\<forall>a. Some a \<in> set ps \<longrightarrow> 0 \<le> Count (h a)" using Cons.prems(2) by simp
    show ?thesis
    proof (cases cur)
      case None
      show ?thesis
      proof (cases "Count (h a) < maxCap")
        case True
        then have "maxCapacityLoop maxCap h (Some a) ps = Some x"
          using Cons.prems(1) p None by simp
        from Cons.IH [OF this ps0] True a0 show ?thesis
          using p None by auto
      next
        case False
        then have "maxCapacityLoop maxCap h None ps = Some x"
          using Cons.prems(1) p None by simp
        from Cons.IH [OF this ps0] False show ?thesis
          using p None by auto
      qed
    next
      case (Some m)
      note cur = Some
      have m: "Count (h m) < maxCap" "0 \<le> Count (h m)" using Cons.prems(3) cur by auto
      show ?thesis
      proof (cases "Count (h m) = 0")
        case True
        then have "x = m" using Cons.prems(1) p cur by simp
        then show ?thesis using True m Cons.prems(2) cur p by auto
      next
        case nz: False
        show ?thesis
        proof (cases "Count (h a) < Count (h m)")
          case True
          then have "maxCapacityLoop maxCap h (Some a) ps = Some x"
            using Cons.prems(1) p cur nz by simp
          from Cons.IH [OF this ps0] True a0 m show ?thesis
            using p cur by auto
        next
          case False
          then have "maxCapacityLoop maxCap h (Some m) ps = Some x"
            using Cons.prems(1) p cur nz by simp
          from Cons.IH [OF this ps0] False m show ?thesis
            using p cur by auto
        qed
      qed
    qed
  qed
qed

lemma range_values:
  "range_order m ks \<Longrightarrow> Some a \<in> set (map (index_map m) ks) \<longleftrightarrow> (\<exists>n. m n = Some (Some a))"
  by (auto simp: range_order_def index_map_def image_iff dom_def split: option.splits)

text \<open>
  C2. In a cache in which every namespace's count lies between 0 and the maximum
  capacity, and for every order in which the loop may visit the namespace mapping,
  GetNamespaceWithMaxCapacity returns a namespace of the mapping whose count is strictly
  below the capacity and minimal among the namespaces strictly below capacity; it returns
  none exactly when every namespace is at capacity.
\<close>

theorem selection_correct:
  assumes "counts_in_bounds maxCap c" and "range_order (namespaceMap c) ks"
  shows "(\<forall>x. GetNamespaceWithMaxCapacity maxCap c ks = Some x \<longrightarrow>
              (\<exists>n. namespaceMap c n = Some (Some x)) \<and> Count (heap c x) < maxCap \<and>
              (\<forall>n a. namespaceMap c n = Some (Some a) \<and> Count (heap c a) < maxCap \<longrightarrow>
                 Count (heap c x) \<le> Count (heap c a)))
         \<and> (GetNamespaceWithMaxCapacity maxCap c ks = None \<longleftrightarrow>
              (\<forall>n a. namespaceMap c n = Some (Some a) \<longrightarrow> Count (heap c a) = maxCap))"
proof -
  let ?ps = "map (index_map (namespaceMap c)) ks"
  have vals: "\<And>a. Some a \<in> set ?ps \<longleftrightarrow> (\<exists>n. namespaceMap c n = Some (Some a))"
    using assms(2) by (rule range_values)
  have none: "GetNamespaceWithMaxCapacity maxCap c ks = None \<longleftrightarrow>
              (\<forall>n a. namespaceMap c n = Some (Some a) \<longrightarrow> Count (heap c a) = maxCap)"
  proof -
    have "GetNamespaceWithMaxCapacity maxCap c ks = None \<longleftrightarrow>
          (\<forall>a. Some a \<in> set ?ps \<longrightarrow> maxCap \<le> Count (heap c a))"
      by (simp add: GetNamespaceWithMaxCapacity_def loop_None_iff)
    also have "\<dots> \<longleftrightarrow> (\<forall>n a. namespaceMap c n = Some (Some a) \<longrightarrow> Count (heap c a) = maxCap)"
      using assms(1) unfolding vals counts_in_bounds_def count_in_bounds_def by (metis order_antisym)
    finally show ?thesis .
  qed
  have some: "(\<exists>n. namespaceMap c n = Some (Some x)) \<and> Count (heap c x) < maxCap \<and>
              (\<forall>n a. namespaceMap c n = Some (Some a) \<and> Count (heap c a) < maxCap \<longrightarrow>
                 Count (heap c x) \<le> Count (heap c a))"
    if "GetNamespaceWithMaxCapacity maxCap c ks = Some x" for x
  proof -
    from that have run: "maxCapacityLoop maxCap (heap c) None ?ps = Some x"
      by (simp add: GetNamespaceWithMaxCapacity_def)
    have pos: "\<forall>a. Some a \<in> set ?ps \<longrightarrow> 0 \<le> Count (heap c a)"
      using assms(1) unfolding vals counts_in_bounds_def count_in_bounds_def by blast
    from loop_Some [OF run pos]
    have "Some x \<in> set ?ps" and "Count (heap c x) < maxCap"
      and "\<forall>a. Some a \<in> set ?ps \<longrightarrow> Count (heap c a) < maxCap \<longrightarrow> Count (heap c x) \<le> Count (heap c a)"
      by auto
    then show ?thesis
      unfolding vals by blast
  qed
  show ?thesis using none some by blast
qed

lemma threeNamespaces_bounds: "counts_in_bounds 10 threeNamespaces"
  by (simp add: counts_in_bounds_def count_in_bounds_def threeNamespaces_def)

lemma threeNamespaces_order: "range_order (namespaceMap threeNamespaces) [''C'', ''A'', ''B'']"
  by (auto simp: range_order_def threeNamespaces_def split: if_splits)

lemma threeNamespaces_result:
  "GetNamespaceWithMaxCapacity 10 threeNamespaces [''C'', ''A'', ''B''] = Some 1"
  by (simp add: GetNamespaceWithMaxCapacity_def threeNamespaces_def index_map_def)

theorem selection_correct_witness:
  "counts_in_bounds 10 threeNamespaces \<and>
   range_order (namespaceMap threeNamespaces) [''C'', ''A'', ''B''] \<and>
   GetNamespaceWithMaxCapacity 10 threeNamespaces [''C'', ''A'', ''B''] = Some 1 \<and>
   namespaceMap threeNamespaces ''B'' = Some (Some 1) \<and>
   Count (heap threeNamespaces 1) < 10 \<and>
   GetNamespaceWithMaxCapacity 10 threeNamespaces [''C'', ''A'', ''B''] \<noteq> None"
proof -
  have b: "namespaceMap threeNamespaces ''B'' = Some (Some 1)"
    by (simp add: threeNamespaces_def)
  from selection_correct [OF threeNamespaces_bounds threeNamespaces_order]
  have "Count (heap threeNamespaces 1) < 10"
    using threeNamespaces_result by blast
  then show ?thesis
    using threeNamespaces_bounds threeNamespaces_order threeNamespaces_result b by simp
qed

subsection \<open>Update and errors\<close>

lemma Update_secrets_error:
  "fst (Update_secrets items c) = Some err \<Longrightarrow>
   \<exists>applied kafkaSecret listing rest c1.
      items = applied @ (kafkaSecret, listing) # rest \<and>
      Update_secrets applied c = (None, c1) \<and>
      (if validateKafkaSecret (Some kafkaSecret)
       then listing = Inl err \<and> snd (Update_secrets items c) = store_namespace kafkaSecret listing c1
       else snd (Update_secrets items c) = c1)"
proof (induction items arbitrary: c)
  case Nil
  then show ?case by simp
next
  case (Cons item items)
  obtain kafkaSecret listing where item: "item = (kafkaSecret, listing)"
    by (cases item)
  show ?case
  proof (cases "validateKafkaSecret (Some kafkaSecret)")
    case False
    then have "Update_secrets [] c = (None, c) \<and>
      (if validateKafkaSecret (Some kafkaSecret)
       then listing = Inl err \<and> snd (Update_secrets (item # items) c) = store_namespace kafkaSecret listing c
       else snd (Update_secrets (item # items) c) = c)"
      by (simp add: item)
    then show ?thesis
      unfolding item by (metis append_Nil)
  next
    case True
    note valid = True
    show ?thesis
    proof (cases listing)
      case (Inl e)
      then have "Update_secrets (item # items) c = (Some e, store_namespace kafkaSecret listing c)"
        using valid
        by (simp add: item store_namespace_def NewNamespaceFromKafkaSecret_def Let_def)
      with Cons.prems Inl have "Update_secrets [] c = (None, c) \<and>
        (if validateKafkaSecret (Some kafkaSecret)
         then listing = Inl err \<and> snd (Update_secrets (item # items) c) = store_namespace kafkaSecret listing c
         else snd (Update_secrets (item # items) c) = c)"
        using valid by simp
      then show ?thesis
        unfolding item by (metis append_Nil)
    next
      case (Inr eventHubs)
      define c' where "c' = Update_eventHubs (nextAddr c) eventHubs (store_namespace kafkaSecret listing c)"
      have step: "Update_secrets (item # items) c = Update_secrets items c'"
        using valid Inr
        by (simp add: item c'_def store_namespace_def NewNamespaceFromKafkaSecret_def Let_def)
      have one: "Update_secrets [item] c = (None, c')"
        using valid Inr
        by (simp add: item c'_def store_namespace_def NewNamespaceFromKafkaSecret_def Let_def)
      from Cons.prems step have "fst (Update_secrets items c') = Some err" by simp
      from Cons.IH [OF this] obtain applied ks l rest c1 where
        items: "items = applied @ (ks, l) # rest" and
        app: "Update_secrets applied c' = (None, c1)" and
        fin: "if validateKafkaSecret (Some ks)
              then l = Inl err \<and> snd (Update_secrets items c') = store_namespace ks l c1
              else snd (Update_secrets items c') = c1"
        by blast
      have "Update_secrets (item # applied) c = Update_secrets applied c'"
        using valid Inr
        by (simp add: item c'_def store_namespace_def NewNamespaceFromKafkaSecret_def Let_def)
      with app have app': "Update_secrets (item # applied) c = (None, c1)" by simp
      have "item # items = (item # applied) @ (ks, l) # rest" using items by simp
      with app' fin step show ?thesis
        by (metis (no_types, lifting))
    qed
  qed
qed

lemma Update_first_invalid:
  "\<not> validateKafkaSecret (Some kafkaSecret) \<Longrightarrow>
     Update (Inr ((kafkaSecret, listing) # rest)) c = (Some (Err ''invalid Kafka Secret found''), c)"
  by (simp add: Update_def)

text \<open>
  C1, as the code has it. \<^verbatim>\<open>Update\<close> writes into the two mappings record by record.
  When it returns an error: if the credential fetch failed, or the first record of the
  snapshot failed validation, the cache is as it was before the call; in general the
  snapshot splits into records that were applied completely, the failing record and the
  rest, and after a validation failure the cache is the one the applied records left,
  while after a listing failure the failing record's namespace has in addition been
  stored in the namespace mapping.
\<close>

theorem Update_error_keeps_applied_records:
  assumes "fst (Update kafkaSecrets c) = Some err"
  shows "(\<forall>e. kafkaSecrets = Inl e \<longrightarrow> snd (Update kafkaSecrets c) = c) \<and>
         (\<forall>kafkaSecret listing rest.
            kafkaSecrets = Inr ((kafkaSecret, listing) # rest) \<and>
            \<not> validateKafkaSecret (Some kafkaSecret) \<longrightarrow> snd (Update kafkaSecrets c) = c) \<and>
         (\<forall>items. kafkaSecrets = Inr items \<longrightarrow>
            (\<exists>applied kafkaSecret listing rest c1.
               items = applied @ (kafkaSecret, listing) # rest \<and>
               Update_secrets applied c = (None, c1) \<and>
               (if validateKafkaSecret (Some kafkaSecret)
                then listing = Inl err \<and>
                     snd (Update kafkaSecrets c) = store_namespace kafkaSecret listing c1
                else snd (Update kafkaSecrets c) = c1)))"
proof (intro conjI allI impI)
  fix e
  assume "kafkaSecrets = Inl e"
  then show "snd (Update kafkaSecrets c) = c"
    by (simp add: Update_def)
next
  fix kafkaSecret listing rest
  assume "kafkaSecrets = Inr ((kafkaSecret, listing) # rest) \<and> \<not> validateKafkaSecret (Some kafkaSecret)"
  then show "snd (Update kafkaSecrets c) = c"
    by (simp add: Update_first_invalid)
next
  fix items
  assume items: "kafkaSecrets = Inr items"
  then have U: "Update kafkaSecrets c = Update_secrets items c"
    by (simp add: Update_def)
  with assms have "fst (Update_secrets items c) = Some err"
    by simp
  from Update_secrets_error [OF this]
  show "\<exists>applied kafkaSecret listing rest c1.
               items = applied @ (kafkaSecret, listing) # rest \<and>
               Update_secrets applied c = (None, c1) \<and>
               (if validateKafkaSecret (Some kafkaSecret)
                then listing = Inl err \<and>
                     snd (Update kafkaSecrets c) = store_namespace kafkaSecret listing c1
                else snd (Update kafkaSecrets c) = c1)"
    unfolding U .
qed

theorem Update_error_keeps_applied_records_witness:
  "fst (Update (Inr [(goodSecret, Inr [''t1'']), (badSecret, Inr [])]) emptyCache)
     = Some (Err ''invalid Kafka Secret found'') \<and>
   (\<exists>applied kafkaSecret listing rest c1.
      [(goodSecret, Inr [''t1'']), (badSecret, Inr [])] = applied @ (kafkaSecret, listing) # rest \<and>
      Update_secrets applied emptyCache = (None, c1) \<and>
      (if validateKafkaSecret (Some kafkaSecret)
       then listing = Inl (Err ''invalid Kafka Secret found'') \<and>
            snd (Update (Inr [(goodSecret, Inr [''t1'']), (badSecret, Inr [])]) emptyCache)
              = store_namespace kafkaSecret listing c1
       else snd (Update (Inr [(goodSecret, Inr [''t1'']), (badSecret, Inr [])]) emptyCache) = c1))"
proof -
  have h: "fst (Update (Inr [(goodSecret, Inr [''t1'']), (badSecret, Inr [])]) emptyCache)
             = Some (Err ''invalid Kafka Secret found'')"
    by (simp add: Update_def goodSecret_def badSecret_def validateKafkaSecret_def
          NewNamespaceFromKafkaSecret_def Let_def)
  from Update_error_keeps_applied_records [OF h]
  have "\<exists>applied kafkaSecret listing rest c1.
      [(goodSecret, Inr [''t1'']), (badSecret, Inr [])] = applied @ (kafkaSecret, listing) # rest \<and>
      Update_secrets applied emptyCache = (None, c1) \<and>
      (if validateKafkaSecret (Some kafkaSecret)
       then listing = Inl (Err ''invalid Kafka Secret found'') \<and>
            snd (Update (Inr [(goodSecret, Inr [''t1'']), (badSecret, Inr [])]) emptyCache)
              = store_namespace kafkaSecret listing c1
       else snd (Update (Inr [(goodSecret, Inr [''t1'']), (badSecret, Inr [])]) emptyCache) = c1)"
    by blast
  with h show ?thesis
    by blast
qed

text \<open>
  C1, as the claim states it, fails: the second record of this snapshot is invalid, the
  call returns the validation error, and the first record's namespace and topic are in
  the mappings all the same.
\<close>

theorem Update_partial_counterexample:
  "fst (Update (Inr [(goodSecret, Inr [''t1'']), (badSecret, Inr [])]) emptyCache)
     = Some (Err ''invalid Kafka Secret found'') \<and>
   namespaceMap (snd (Update (Inr [(goodSecret, Inr [''t1'']), (badSecret, Inr [])]) emptyCache)) ''ns1''
     = Some (Some 0) \<and>
   namespaceMap emptyCache ''ns1'' = None \<and>
   eventhubMap (snd (Update (Inr [(goodSecret, Inr [''t1'']), (badSecret, Inr [])]) emptyCache)) ''t1''
     = Some (Some 0) \<and>
   eventhubMap emptyCache ''t1'' = None"
  by (simp add: Update_def emptyCache_def goodSecret_def badSecret_def validateKafkaSecret_def
        NewNamespaceFromKafkaSecret_def Let_def)

section \<open>Properties of the channel reconciler\<close>

subsection \<open>The loops as maps\<close>

lemma subscriberStatusLoop_map:
  "subscriberStatusLoop failed acc subs = acc @ map (subscriberStatusOf failed) subs"
  by (induction subs arbitrary: acc) simp_all

lemma subscriptionsLoop_map:
  "subscriptionsLoop acc subs = acc @ map subscriptionOf subs"
  by (induction subs arbitrary: acc) simp_all

lemma subscriberStatusOf_fields:
  "StatusUID (subscriberStatusOf failed sub) = UID sub"
  "ObservedGeneration (subscriberStatusOf failed sub) = Generation sub"
  "failed (subscriptionOf sub) = None \<Longrightarrow>
     Ready (subscriberStatusOf failed sub) = ConditionTrue \<and> Message (subscriberStatusOf failed sub) = []"
  "failed (subscriptionOf sub) = Some err \<Longrightarrow>
     Ready (subscriberStatusOf failed sub) = ConditionFalse \<and>
     Message (subscriberStatusOf failed sub) = ErrorMsg err"
  by (simp_all add: subscriberStatusOf_def Let_def split: option.splits)

subsection \<open>Per-subscriber status\<close>

text \<open>
  C8. For every declared subscriber list and every failure mapping, the computed status
  has one entry per declared subscriber, in order, carrying the subscriber's identifier
  and generation; the entry is ready with no message when the subscriber's subscription
  is absent from the failure mapping, and not ready with the error's message when it is
  present.
\<close>

theorem createSubscribableStatus_entries:
  "\<exists>statuses.
     StatusSubscribers (createSubscribableStatus subscribable failed) = Some statuses \<and>
     length statuses = length (range_slice (Subscribers subscribable)) \<and>
     (\<forall>i < length (range_slice (Subscribers subscribable)).
        StatusUID (statuses ! i) = UID (range_slice (Subscribers subscribable) ! i) \<and>
        ObservedGeneration (statuses ! i) = Generation (range_slice (Subscribers subscribable) ! i) \<and>
        (failed (subscriptionOf (range_slice (Subscribers subscribable) ! i)) = None \<longrightarrow>
           Ready (statuses ! i) = ConditionTrue \<and> Message (statuses ! i) = []) \<and>
        (\<forall>err. failed (subscriptionOf (range_slice (Subscribers subscribable) ! i)) = Some err \<longrightarrow>
           Ready (statuses ! i) = ConditionFalse \<and> Message (statuses ! i) = ErrorMsg err))"
proof -
  let ?subs = "range_slice (Subscribers subscribable)"
  let ?statuses = "map (subscriberStatusOf failed) ?subs"
  have "StatusSubscribers (createSubscribableStatus subscribable failed) = Some ?statuses"
    by (simp add: createSubscribableStatus_def subscriberStatusLoop_map)
  moreover have "length ?statuses = length ?subs" by simp
  moreover have "\<forall>i < length ?subs.
        StatusUID (?statuses ! i) = UID (?subs ! i) \<and>
        ObservedGeneration (?statuses ! i) = Generation (?subs ! i) \<and>
        (failed (subscriptionOf (?subs ! i)) = None \<longrightarrow>
           Ready (?statuses ! i) = ConditionTrue \<and> Message (?statuses ! i) = []) \<and>
        (\<forall>err. failed (subscriptionOf (?subs ! i)) = Some err \<longrightarrow>
           Ready (?statuses ! i) = ConditionFalse \<and> Message (?statuses ! i) = ErrorMsg err)"
    by (simp add: subscriberStatusOf_fields)
  ultimately show ?thesis by blast
qed

theorem createSubscribableStatus_entries_witness:
  "(1::nat) < length (range_slice (Subscribers \<lparr> Subscribers = Some [subscriberA, subscriberB] \<rparr>)) \<and>
   failedB (subscriptionOf subscriberA) = None \<and>
   failedB (subscriptionOf subscriberB) = Some (Err ''boom'') \<and>
   (\<exists>statuses.
      StatusSubscribers
        (createSubscribableStatus \<lparr> Subscribers = Some [subscriberA, subscriberB] \<rparr> failedB)
        = Some statuses \<and>
      length statuses = 2 \<and>
      Ready (statuses ! 0) = ConditionTrue \<and> Message (statuses ! 0) = [] \<and>
      Ready (statuses ! 1) = ConditionFalse \<and> Message (statuses ! 1) = ''boom'')"
proof -
  let ?spec = "\<lparr> Subscribers = Some [subscriberA, subscriberB] \<rparr>"
  have subs: "range_slice (Subscribers ?spec) = [subscriberA, subscriberB]"
    by (simp add: range_slice_def)
  have a: "failedB (subscriptionOf subscriberA) = None"
    by (simp add: failedB_def subscriptionOf_def subscriberA_def subscriberB_def)
  have b: "failedB (subscriptionOf subscriberB) = Some (Err ''boom'')"
    by (simp add: failedB_def)
  from createSubscribableStatus_entries [of ?spec failedB] obtain statuses where
    st: "StatusSubscribers (createSubscribableStatus ?spec failedB) = Some statuses" and
    len: "length statuses = length (range_slice (Subscribers ?spec))" and
    all: "\<forall>i < length (range_slice (Subscribers ?spec)).
        StatusUID (statuses ! i) = UID (range_slice (Subscribers ?spec) ! i) \<and>
        ObservedGeneration (statuses ! i) = Generation (range_slice (Subscribers ?spec) ! i) \<and>
        (failedB (subscriptionOf (range_slice (Subscribers ?spec) ! i)) = None \<longrightarrow>
           Ready (statuses ! i) = ConditionTrue \<and> Message (statuses ! i) = []) \<and>
        (\<forall>err. failedB (subscriptionOf (range_slice (Subscribers ?spec) ! i)) = Some err \<longrightarrow>
           Ready (statuses ! i) = ConditionFalse \<and> Message (statuses ! i) = ErrorMsg err)"
    by blast
  from all [rule_format, of 0] a
  have 0: "Ready (statuses ! 0) = ConditionTrue \<and> Message (statuses ! 0) = []"
    unfolding subs by simp
  from all [rule_format, of 1] b
  have 1: "Ready (statuses ! 1) = ConditionFalse \<and> Message (statuses ! 1) = ''boom''"
    unfolding subs by simp
  have "length statuses = 2" using len unfolding subs by simp
  with st 0 1 a b subs show ?thesis by auto
qed

subsection \<open>Identity of subscriptions\<close>

text \<open>
  C3, as the code has it. Two subscriptions built from subscribers with the same unique
  identifier have the same consumer-group identifier, \<^verbatim>\<open>kafka.<uid>\<close>. As map keys they
  are equal exactly when the destination URIs are equal as well: an entry stored under
  one is found through the other only in that case.
\<close>

theorem subscription_identity:
  assumes "UID s1 = UID s2"
  shows "GroupId (subscriptionOf s1) = ''kafka.'' @ UID s1 \<and>
         GroupId (subscriptionOf s2) = GroupId (subscriptionOf s1) \<and>
         (subscriptionOf s1 = subscriptionOf s2 \<longleftrightarrow> SubscriberURI s1 = SubscriberURI s2) \<and>
         [subscriptionOf s1 \<mapsto> err] (subscriptionOf s2) =
           (if SubscriberURI s1 = SubscriberURI s2 then Some err else None)"
proof -
  have group: "GroupId (subscriptionOf s1) = ''kafka.'' @ UID s1"
    by (simp add: subscriptionOf_def)
  have same: "GroupId (subscriptionOf s2) = GroupId (subscriptionOf s1)"
    using assms by (simp add: subscriptionOf_def)
  have key: "subscriptionOf s1 = subscriptionOf s2 \<longleftrightarrow> SubscriberURI s1 = SubscriberURI s2"
    using assms by (simp add: subscriptionOf_def)
  from key have "[subscriptionOf s1 \<mapsto> err] (subscriptionOf s2) =
           (if SubscriberURI s1 = SubscriberURI s2 then Some err else None)"
    by auto
  with group same key show ?thesis by blast
qed

theorem subscription_identity_witness:
  "UID subscriberA = UID subscriberA' \<and>
   GroupId (subscriptionOf subscriberA) = ''kafka.u1'' \<and>
   GroupId (subscriptionOf subscriberA') = ''kafka.u1'' \<and>
   subscriptionOf subscriberA \<noteq> subscriptionOf subscriberA'"
proof -
  have h: "UID subscriberA = UID subscriberA'"
    by (simp add: subscriberA_def subscriberA'_def)
  have u: "SubscriberURI subscriberA \<noteq> SubscriberURI subscriberA'" "UID subscriberA = ''u1''"
    by (simp_all add: subscriberA_def subscriberA'_def)
  show ?thesis
    using h u subscription_identity [OF h, of "Err ''boom''"] by simp
qed

text \<open>
  C3, as the claim states it, fails: the two subscribers share the identifier \<^verbatim>\<open>u1\<close> and
  the group identifier, yet their subscriptions are different keys, and the failure
  recorded for the first is not found for the second, which is reported ready.
\<close>

theorem subscription_key_counterexample:
  "UID subscriberA = UID subscriberA' \<and>
   SubscriberURI subscriberA \<noteq> SubscriberURI subscriberA' \<and>
   GroupId (subscriptionOf subscriberA) = GroupId (subscriptionOf subscriberA') \<and>
   subscriptionOf subscriberA \<noteq> subscriptionOf subscriberA' \<and>
   failedA (subscriptionOf subscriberA) = Some (Err ''boom'') \<and>
   failedA (subscriptionOf subscriberA') = None \<and>
   createSubscribableStatus \<lparr> Subscribers = Some [subscriberA'] \<rparr> failedA =
     \<lparr> StatusSubscribers = Some
         [\<lparr> StatusUID = ''u1'', ObservedGeneration = 2, Ready = ConditionTrue, Message = [] \<rparr>] \<rparr>"
  by (simp add: createSubscribableStatus_def range_slice_def subscriberStatusOf_def failedA_def
        subscriptionOf_def subscriberA_def subscriberA'_def Let_def)

subsection \<open>Channels without subscribers\<close>

text \<open>
  C6, as the code has it. For a channel whose subscriber list is absent (\<^verbatim>\<open>nil\<close>),
  \<^verbatim>\<open>reconcile\<close> returns no error, leaves the channel as it is and does not call the
  dispatcher. For a channel whose subscriber list is present and empty it calls the
  dispatcher once, with the empty list of subscriptions, and returns no error exactly
  when the dispatcher reports no failure.
\<close>

theorem reconcile_without_subscribers:
  "(Subscribers (Spec channel) = None \<longrightarrow> reconcile r channel = (None, channel, [])) \<and>
   (Subscribers (Spec channel) = Some [] \<longrightarrow>
      snd (snd (reconcile r channel)) = [DispatcherUpdate []] \<and>
      (fst (reconcile r channel) = None \<longleftrightarrow> UpdateSubscriptions r [] = Map.empty))"
proof (intro conjI impI)
  assume "Subscribers (Spec channel) = None"
  then show "reconcile r channel = (None, channel, [])"
    by (simp add: reconcile_def)
next
  assume "Subscribers (Spec channel) = Some []"
  then show "snd (snd (reconcile r channel)) = [DispatcherUpdate []]"
    by (simp add: reconcile_def Let_def)
next
  assume "Subscribers (Spec channel) = Some []"
  then show "fst (reconcile r channel) = None \<longleftrightarrow> UpdateSubscriptions r [] = Map.empty"
    by (simp add: reconcile_def Let_def)
qed

theorem reconcile_without_subscribers_witness:
  "Subscribers (Spec bareChannel) = None \<and>
   reconcile exampleReconciler bareChannel = (None, bareChannel, []) \<and>
   Subscribers (Spec storedChannel) = Some [] \<and>
   snd (snd (reconcile exampleReconciler storedChannel)) = [DispatcherUpdate []] \<and>
   fst (reconcile exampleReconciler storedChannel) = None"
proof -
  have a: "Subscribers (Spec bareChannel) = None"
    by (simp add: bareChannel_def)
  have b: "Subscribers (Spec storedChannel) = Some []"
    by (simp add: storedChannel_def)
  have c: "UpdateSubscriptions exampleReconciler [] = Map.empty"
    by (simp add: exampleReconciler_def)
  show ?thesis
    using a b c
      reconcile_without_subscribers [of bareChannel exampleReconciler]
      reconcile_without_subscribers [of storedChannel exampleReconciler]
    by simp
qed

text \<open>
  C6, as the claim states it, fails for the empty list: the channel declares an empty
  subscriber list, and \<^verbatim>\<open>reconcile\<close> calls the dispatcher.
\<close>

theorem reconcile_empty_list_counterexample:
  "Subscribers (Spec storedChannel) = Some [] \<and>
   snd (snd (reconcile exampleReconciler storedChannel)) = [DispatcherUpdate []] \<and>
   snd (snd (reconcile exampleReconciler storedChannel)) \<noteq> []"
  by (simp add: reconcile_def storedChannel_def exampleReconciler_def Let_def)

subsection \<open>Status write-back\<close>

text \<open>
  C7. When the status of the channel passed to \<^verbatim>\<open>updateStatus\<close> equals the status of the
  stored channel, \<^verbatim>\<open>updateStatus\<close> returns the stored channel after the one read and
  writes nothing; whenever it writes, the stored status differs from the new one, and
  what it writes is the stored channel with the new status.
\<close>

theorem updateStatus_writes_only_on_change:
  "(\<forall>kc. listerGet r (ObjNamespace desired) (ObjName desired) = Inr kc \<and> Status kc = Status desired \<longrightarrow>
          updateStatus r desired = (Inr kc, [ListerGet (ObjNamespace desired) (ObjName desired)])) \<and>
   (\<forall>w. StatusWrite w \<in> set (snd (updateStatus r desired)) \<longrightarrow>
          (\<exists>kc. listerGet r (ObjNamespace desired) (ObjName desired) = Inr kc \<and>
                Status kc \<noteq> Status desired \<and> w = kc\<lparr> Status := Status desired \<rparr>))"
proof (intro conjI allI impI)
  fix kc
  assume "listerGet r (ObjNamespace desired) (ObjName desired) = Inr kc \<and> Status kc = Status desired"
  then show "updateStatus r desired = (Inr kc, [ListerGet (ObjNamespace desired) (ObjName desired)])"
    by (simp add: updateStatus_def)
next
  fix w
  assume w: "StatusWrite w \<in> set (snd (updateStatus r desired))"
  show "\<exists>kc. listerGet r (ObjNamespace desired) (ObjName desired) = Inr kc \<and>
             Status kc \<noteq> Status desired \<and> w = kc\<lparr> Status := Status desired \<rparr>"
  proof (cases "listerGet r (ObjNamespace desired) (ObjName desired)")
    case (Inl err)
    with w show ?thesis by (simp add: updateStatus_def)
  next
    case (Inr kc)
    with w show ?thesis
      by (cases "Status kc = Status desired") (simp_all add: updateStatus_def Let_def)
  qed
qed

theorem updateStatus_writes_only_on_change_witness:
  "listerGet exampleReconciler (ObjNamespace storedChannel) (ObjName storedChannel) = Inr storedChannel \<and>
   updateStatus exampleReconciler storedChannel = (Inr storedChannel, [ListerGet ''ns'' ''ch'']) \<and>
   StatusWrite changedChannel \<in> set (snd (updateStatus exampleReconciler changedChannel)) \<and>
   Status storedChannel \<noteq> Status changedChannel"
proof -
  have a: "listerGet exampleReconciler (ObjNamespace storedChannel) (ObjName storedChannel) = Inr storedChannel"
    by (simp add: exampleReconciler_def storedChannel_def)
  have n: "ObjNamespace storedChannel = ''ns''" "ObjName storedChannel = ''ch''"
    by (simp_all add: storedChannel_def)
  have b: "StatusWrite changedChannel \<in> set (snd (updateStatus exampleReconciler changedChannel))"
    by (simp add: updateStatus_def exampleReconciler_def changedChannel_def storedChannel_def Let_def)
  from updateStatus_writes_only_on_change [of exampleReconciler changedChannel] b
  have "\<exists>kc. listerGet exampleReconciler (ObjNamespace changedChannel) (ObjName changedChannel) = Inr kc \<and>
             Status kc \<noteq> Status changedChannel"
    by blast
  moreover have "listerGet exampleReconciler (ObjNamespace changedChannel) (ObjName changedChannel) = Inr storedChannel"
    by (simp add: exampleReconciler_def changedChannel_def storedChannel_def)
  ultimately have c: "Status storedChannel \<noteq> Status changedChannel" by auto
  from updateStatus_writes_only_on_change [of exampleReconciler storedChannel] a
  have "updateStatus exampleReconciler storedChannel =
          (Inr storedChannel, [ListerGet (ObjNamespace storedChannel) (ObjName storedChannel)])"
    by blast
  with a b c n show ?thesis by simp
qed

subsection \<open>Keys that do not parse\<close>

text \<open>
  C10. When the key does not split into a namespace and a name, \<^verbatim>\<open>Reconcile\<close> returns
  no error and has touched no collaborator: no read of the lister, no call of the
  dispatcher, no status write, no event.
\<close>

theorem Reconcile_invalid_key:
  assumes "SplitMetaNamespaceKey r key = Inl err"
  shows "Reconcile r key = (None, [])"
  using assms unfolding Reconcile_def by simp

theorem Reconcile_invalid_key_witness:
  "SplitMetaNamespaceKey exampleReconciler ''a/b/c'' = Inl (Err ''unexpected key format'') \<and>
   Reconcile exampleReconciler ''a/b/c'' = (None, [])"
proof -
  have h: "SplitMetaNamespaceKey exampleReconciler ''a/b/c'' = Inl (Err ''unexpected key format'')"
    by (simp add: exampleReconciler_def)
  show ?thesis using h Reconcile_invalid_key [OF h] by simp
qed

text \<open>
  A complete run on the example: the stored status has no subscriber list, the computed
  one has an empty list, the two differ, and the status is written.
\<close>

lemma Reconcile_example:
  "Reconcile exampleReconciler ''ns/ch'' =
     (None, [ListerGet ''ns'' ''ch'', DispatcherUpdate [],
             RecordEvent EventTypeNormal ''ChannelReconciled'' ''KafkaChannel Reconciled'',
             ListerGet ''ns'' ''ch'',
             StatusWrite changedChannel])"
  by (simp add: Reconcile_def reconcile_def updateStatus_def exampleReconciler_def storedChannel_def
      changedChannel_def createSubscribableStatus_def range_slice_def channelReconciled_def Let_def)

end
